theory Spec2Isabelle
  imports Main
begin

section \<open>Data model of \<^verbatim>\<open>src/Router.ts\<close>\<close>

text \<open>
  JavaScript strings are modelled as HOL strings. The only characters the code inspects
  are the separator \<^verbatim>\<open>/\<close> and the letters of the method names, which are ASCII, so
  \<^verbatim>\<open>startsWith\<close>, \<^verbatim>\<open>endsWith\<close>, \<^verbatim>\<open>slice(1)\<close> and concatenation act on the character list
  as they act on the source string. \<^verbatim>\<open>toUpperCase\<close> is modelled on ASCII letters.
\<close>

definition startsWith :: "string \<Rightarrow> string \<Rightarrow> bool" where
  "startsWith s p = (take (length p) s = p)"

definition endsWith :: "string \<Rightarrow> string \<Rightarrow> bool" where
  "endsWith s p = (length p \<le> length s \<and> drop (length s - length p) s = p)"

definition slice1 :: "string \<Rightarrow> string" where
  "slice1 s = drop 1 s"

definition upper_char :: "char \<Rightarrow> char" where
  "upper_char c =
     (case map_of (zip ''abcdefghijklmnopqrstuvwxyz'' ''ABCDEFGHIJKLMNOPQRSTUVWXYZ'') c of
        Some u \<Rightarrow> u
      | None \<Rightarrow> c)"

definition toUpperCase :: "string \<Rightarrow> string" where
  "toUpperCase s = map upper_char s"

text \<open>Objects with identity are addressed: a Router by its address in the heap, a handler
  function by an identifier that a function table interprets.\<close>

type_synonym rid = nat
type_synonym fid = nat

text \<open>\<^verbatim>\<open>type Methods = "ANY" | "GET" | "POST" | "PUT" | "PATCH" | "DELETE"\<close>\<close>

datatype Methods = ANY | GET | POST | PUT | PATCH | DELETE

fun method_string :: "Methods \<Rightarrow> string" where
  "method_string ANY = ''ANY''"
| "method_string GET = ''GET''"
| "method_string POST = ''POST''"
| "method_string PUT = ''PUT''"
| "method_string PATCH = ''PATCH''"
| "method_string DELETE = ''DELETE''"

text \<open>\<^verbatim>\<open>type RouteHandler = Router | RouteFunctionHandler\<close>; the test
  \<^verbatim>\<open>handler instanceof Router\<close> is the test for the first constructor.\<close>

datatype RouteHandler = RouterHandler rid | FunctionHandler fid

fun instanceof_Router :: "RouteHandler \<Rightarrow> bool" where
  "instanceof_Router (RouterHandler k) = True"
| "instanceof_Router (FunctionHandler f) = False"

text \<open>A \<^verbatim>\<open>UrlPattern\<close> object is represented by the string it was constructed from.\<close>

datatype UrlPattern = UrlPattern string

type_synonym params = "(string \<times> string) list"

record RoutePath =
  pattern :: UrlPattern
  formattedPath :: string
  inputPath :: string

record Route =
  router :: rid
  "method" :: Methods
  path :: RoutePath
  handler :: RouteHandler
  isMiddleware :: bool
  isRouterHandler :: bool

record RouteOptions =
  o_path :: string
  o_handler :: RouteHandler
  o_method :: "Methods option"
  o_isMiddleware :: "bool option"

record ('p, 'o) RouterOptions =
  o_basePath :: "string option"
  o_waterfallMiddleware :: "bool option"
  o_customResponseTransformer :: "('p \<Rightarrow> 'o) option"

record ('p, 'o) Router =
  basePath :: string
  isWaterfall :: bool
  routes :: "Route list"
  customResponseTransformer :: "('p \<Rightarrow> 'o) option"

text \<open>The heap maps every Router address to the state of that Router object.\<close>

type_synonym ('p, 'o) heap = "rid \<Rightarrow> ('p, 'o) Router"

section \<open>Path normalisation\<close>

text \<open>\<^verbatim>\<open>Router.fixPath\<close>: \<^verbatim>\<open>this.basePath || "/"\<close> replaces an empty base path by the
  separator.\<close>

definition fixPath :: "('p, 'o) Router \<Rightarrow> string \<Rightarrow> string" where
  "fixPath this p =
     (let p1 = (if basePath this = [] then ''/'' else basePath this)
                 @ (if startsWith p ''/'' then slice1 p else p)
      in if \<not> endsWith p1 ''/'' then p1 @ ''/'' else p1)"

text \<open>The number of separators a string ends with.\<close>

definition trailing_separators :: "string \<Rightarrow> nat" where
  "trailing_separators s = length (takeWhile (\<lambda>c. c = CHR ''/'') (rev s))"

section \<open>The pattern library and errors\<close>

text \<open>
  The package \<^verbatim>\<open>url-pattern\<close> is an external dependency. It is a parameter of the model:
  \<open>compiles s\<close> says that \<^verbatim>\<open>new UrlPattern(s)\<close> returns (it throws otherwise), and
  \<open>pattern_match s p\<close> is the result of \<^verbatim>\<open>new UrlPattern(s).match(p)\<close>, where \<open>None\<close> is
  \<^verbatim>\<open>null\<close>.
\<close>

record UrlPatternLib =
  compiles :: "string \<Rightarrow> bool"
  pattern_match :: "string \<Rightarrow> string \<Rightarrow> params option"

text \<open>Thrown values. \<open>Error m\<close> is \<^verbatim>\<open>new Error(m)\<close>; \<open>PatternError\<close> is what the pattern
  constructor throws; \<open>TypeError\<close> is calling a value that is not a function; \<open>Thrown m\<close> is
  a value thrown by a handler.\<close>

datatype error = Error string | PatternError | TypeError | Thrown string

definition InvalidRouteDefinition :: error where
  "InvalidRouteDefinition = Error ''Cannot have handler as instance of Router if method is not ANY!''"

definition NoHandlerFound :: error where
  "NoHandlerFound = Error ''Could not find a response handler for the request!''"

section \<open>Requests and responses\<close>

text \<open>Modelled from the spec: \<^verbatim>\<open>IncomingRequest\<close> (\<^verbatim>\<open>./interfaces\<close>) is not among the
  sources; the spec gives a raw request a method and a path, both strings.\<close>

record IncomingRequest =
  in_method :: string
  in_path :: string

text \<open>Modelled from the spec: \<^verbatim>\<open>RouterRequest\<close> (\<^verbatim>\<open>./RouterRequest\<close>) is not among the
  sources; the spec gives it the method, the path, the captured parameters (unset until a
  terminal handler is selected) and the additional data of the caller.\<close>

record 'd RouterRequest =
  req_method :: string
  req_path :: string
  params :: "params option"
  additionalData :: "'d option"

definition new_RouterRequest :: "IncomingRequest \<Rightarrow> 'd option \<Rightarrow> 'd RouterRequest" where
  "new_RouterRequest incoming ad =
     \<lparr>req_method = in_method incoming, req_path = in_path incoming, params = None,
      additionalData = ad\<rparr>"

definition setParams :: "'d RouterRequest \<Rightarrow> params option \<Rightarrow> 'd RouterRequest" where
  "setParams request m = request\<lparr>params := m\<rparr>"

text \<open>Modelled from the spec: \<^verbatim>\<open>RouterResponse\<close> (\<^verbatim>\<open>./RouterResponse\<close>) is not among the
  sources; the spec gives it a payload that handlers change and the Route that handles the
  request. The payload a new response starts with is the parameter \<open>init\<close>.\<close>

record 'p RouterResponse =
  response :: 'p
  route :: "Route option"

definition new_RouterResponse :: "'p \<Rightarrow> 'd RouterRequest \<Rightarrow> 'p RouterResponse" where
  "new_RouterResponse init request = \<lparr>response = init, route = None\<rparr>"

definition setRoute :: "'p RouterResponse \<Rightarrow> Route \<Rightarrow> 'p RouterResponse" where
  "setRoute resp r = resp\<lparr>route := Some r\<rparr>"

datatype ('p, 'o) BuiltResponse = Payload 'p | Transformed 'o

text \<open>Modelled from the spec: \<^verbatim>\<open>RouterResponse.buildResponse\<close> is not among the sources.
  The spec: apply the response transform if one is configured, otherwise emit the
  accumulated payload as it is. The call has no argument, so the transform is the one of
  the Router that owns the Route recorded by \<^verbatim>\<open>setRoute\<close>.\<close>

definition buildResponse :: "('p, 'o) heap \<Rightarrow> 'p RouterResponse \<Rightarrow> ('p, 'o) BuiltResponse" where
  "buildResponse h resp =
     (case route resp of
        None \<Rightarrow> Payload (response resp)
      | Some r \<Rightarrow>
          (case customResponseTransformer (h (router r)) of
             None \<Rightarrow> Payload (response resp)
           | Some t \<Rightarrow> Transformed (t (response resp))))"

section \<open>Route\<close>

text \<open>\<^verbatim>\<open>Router.createUrlPattern\<close>\<close>

definition createUrlPattern :: "UrlPatternLib \<Rightarrow> string \<Rightarrow> error + UrlPattern" where
  "createUrlPattern L p = (if compiles L p then Inr (UrlPattern p) else Inl PatternError)"

text \<open>The constructor of \<^verbatim>\<open>Route\<close>; \<open>r\<close> is the address of the Router that creates the
  Route, whose base path \<^verbatim>\<open>fixPath\<close> reads.\<close>

definition new_Route :: "UrlPatternLib \<Rightarrow> ('p, 'o) heap \<Rightarrow> rid \<Rightarrow> RouteOptions \<Rightarrow> error + Route" where
  "new_Route L h r options =
     (let fixedPath = fixPath (h r) (o_path options) in
      case createUrlPattern L fixedPath of
        Inl e \<Rightarrow> Inl e
      | Inr pathPattern \<Rightarrow>
          Inr \<lparr>router = r,
               method = (case o_method options of None \<Rightarrow> GET | Some m \<Rightarrow> m),
               path = \<lparr>pattern = pathPattern,
                       formattedPath = fixPath (h r) (o_path options),
                       inputPath = o_path options\<rparr>,
               handler = o_handler options,
               isMiddleware =
                 (if instanceof_Router (o_handler options) then False
                  else (case o_isMiddleware options of None \<Rightarrow> False | Some b \<Rightarrow> b)),
               isRouterHandler = instanceof_Router (o_handler options)\<rparr>)"

fun pattern_source :: "UrlPattern \<Rightarrow> string" where
  "pattern_source (UrlPattern s) = s"

definition matchPath :: "UrlPatternLib \<Rightarrow> Route \<Rightarrow> 'd RouterRequest \<Rightarrow> params option" where
  "matchPath L rt request = pattern_match L (pattern_source (pattern (path rt))) (req_path request)"

record MatchResult =
  pathMatch :: "params option"
  doesMatch :: bool

text \<open>\<^verbatim>\<open>Route.match\<close>; \<^verbatim>\<open>!!pathMatches\<close> is true unless the pattern returned \<^verbatim>\<open>null\<close>.\<close>

definition match :: "UrlPatternLib \<Rightarrow> Route \<Rightarrow> 'd RouterRequest \<Rightarrow> MatchResult" where
  "match L rt request =
     (let pathMatches = matchPath L rt request;
          methodMatches = (toUpperCase (method_string (method rt)) = toUpperCase (req_method request))
      in \<lparr>pathMatch = pathMatches, doesMatch = (pathMatches \<noteq> None \<and> methodMatches)\<rparr>)"

section \<open>Router: registration\<close>

text \<open>\<^verbatim>\<open>Router.createRoute\<close>. The result is the thrown error or the created Route, together
  with the heap the call leaves behind.\<close>

definition createRoute ::
  "UrlPatternLib \<Rightarrow> ('p, 'o) heap \<Rightarrow> rid \<Rightarrow> RouteOptions \<Rightarrow> (error + Route) \<times> ('p, 'o) heap" where
  "createRoute L h this options =
     (if o_method options \<noteq> Some ANY \<and> instanceof_Router (o_handler options)
      then (Inl InvalidRouteDefinition, h)
      else
        (case new_Route L h this options of
           Inl e \<Rightarrow> (Inl e, h)
         | Inr createdRoute \<Rightarrow>
             (Inr createdRoute, h(this := (h this)\<lparr>routes := routes (h this) @ [createdRoute]\<rparr>))))"

definition get ::
  "UrlPatternLib \<Rightarrow> ('p, 'o) heap \<Rightarrow> rid \<Rightarrow> string \<Rightarrow> RouteHandler \<Rightarrow> (error + unit) \<times> ('p, 'o) heap" where
  "get L h this p hdl =
     (case createRoute L h this
             \<lparr>o_path = p, o_handler = hdl, o_method = Some GET, o_isMiddleware = Some False\<rparr> of
        (Inl e, h') \<Rightarrow> (Inl e, h')
      | (Inr created, h') \<Rightarrow> (Inr (), h'))"

definition post ::
  "UrlPatternLib \<Rightarrow> ('p, 'o) heap \<Rightarrow> rid \<Rightarrow> string \<Rightarrow> RouteHandler \<Rightarrow> (error + unit) \<times> ('p, 'o) heap" where
  "post L h this p hdl =
     (case createRoute L h this
             \<lparr>o_path = p, o_handler = hdl, o_method = Some POST, o_isMiddleware = Some False\<rparr> of
        (Inl e, h') \<Rightarrow> (Inl e, h')
      | (Inr created, h') \<Rightarrow> (Inr (), h'))"

section \<open>Router: base path\<close>

text \<open>
  The loop of \<^verbatim>\<open>Router.setBasePath\<close>. \<^verbatim>\<open>for (const oldRoute of this.routes)\<close> steps an
  index through the array object \<^verbatim>\<open>this.routes\<close> and compares it with the length the
  array has at that moment; \<^verbatim>\<open>createRoute\<close> pushes onto that same array. The loop may
  not return, so its result is an option: \<open>None\<close> is a loop that runs forever.
\<close>

partial_function (option) setBasePath_loop ::
  "UrlPatternLib \<Rightarrow> ('p, 'o) heap \<Rightarrow> rid \<Rightarrow> nat \<Rightarrow> Route list
     \<Rightarrow> ((error + Route list) \<times> ('p, 'o) heap) option" where
  "setBasePath_loop L h this i newRoutes =
     (if i < length (routes (h this)) then
        (let oldRoute = routes (h this) ! i in
         case createRoute L h this
                \<lparr>o_path = inputPath (path oldRoute), o_handler = handler oldRoute,
                 o_method = Some (method oldRoute), o_isMiddleware = Some (isMiddleware oldRoute)\<rparr> of
           (Inl e, h') \<Rightarrow> Some (Inl e, h')
         | (Inr newRoute, h') \<Rightarrow> setBasePath_loop L h' this (Suc i) (newRoutes @ [newRoute]))
      else Some (Inr newRoutes, h))"

text \<open>\<^verbatim>\<open>Router.setBasePath\<close>; \<^verbatim>\<open>path || "/"\<close> replaces a missing or empty path.\<close>

definition setBasePath ::
  "UrlPatternLib \<Rightarrow> ('p, 'o) heap \<Rightarrow> rid \<Rightarrow> string option \<Rightarrow> ((error + string) \<times> ('p, 'o) heap) option" where
  "setBasePath L h this p =
     (let h1 = h(this := (h this)\<lparr>basePath := ''/''\<rparr>);
          h2 = h1(this := (h1 this)
                 \<lparr>basePath := fixPath (h1 this) (case p of None \<Rightarrow> ''/'' | Some s \<Rightarrow> if s = [] then ''/'' else s)\<rparr>)
      in case setBasePath_loop L h2 this 0 [] of
           None \<Rightarrow> None
         | Some (Inl e, h3) \<Rightarrow> Some (Inl e, h3)
         | Some (Inr newRoutes, h3) \<Rightarrow>
             Some (Inr (basePath (h3 this)), h3(this := (h3 this)\<lparr>routes := newRoutes\<rparr>)))"

text \<open>The constructor of \<^verbatim>\<open>Router\<close>, for the new object at address \<open>this\<close>. Before
  \<^verbatim>\<open>setBasePath\<close> runs, the field \<^verbatim>\<open>basePath\<close> is unset, which \<^verbatim>\<open>||\<close> treats as the empty
  string. \<^verbatim>\<open>options.waterfallMiddleware || true\<close> is its left operand when that is \<^verbatim>\<open>true\<close>
  and \<^verbatim>\<open>true\<close> otherwise.\<close>

definition new_Router ::
  "UrlPatternLib \<Rightarrow> ('p, 'o) heap \<Rightarrow> rid \<Rightarrow> ('p, 'o) RouterOptions \<Rightarrow> ((error + unit) \<times> ('p, 'o) heap) option" where
  "new_Router L h this options =
     (let h1 = h(this :=
                 \<lparr>basePath = [],
                  isWaterfall = (if o_waterfallMiddleware options = Some True then True else True),
                  routes = [],
                  customResponseTransformer = o_customResponseTransformer options\<rparr>)
      in case setBasePath L h1 this (o_basePath options) of
           None \<Rightarrow> None
         | Some (Inl e, h2) \<Rightarrow> Some (Inl e, h2)
         | Some (Inr bp, h2) \<Rightarrow> Some (Inr (), h2(this := (h2 this)\<lparr>basePath := bp\<rparr>)))"

section \<open>Router: route discovery\<close>

record MatchingRoute =
  mr_route :: Route
  mr_match :: "params option"

text \<open>
  \<^verbatim>\<open>Router.findMatchingRoutes\<close>. The loop over \<^verbatim>\<open>this.routes\<close> and the call of the method
  on a nested Router are one recursive function: \<open>rs\<close> is the part of the array still to
  visit and \<open>foundMatching\<close> the variable of that name. A call on a nested Router starts a
  loop over that Router's routes with an empty \<open>foundMatching\<close>. The recursion follows
  the heap, so the result is an option: \<open>None\<close> is a call that does not return, and
  \<open>Option.bind\<close> continues with the result of a nested call that returns.
\<close>

partial_function (option) findMatchingRoutes_loop ::
  "UrlPatternLib \<Rightarrow> ('p, 'o) heap \<Rightarrow> 'd RouterRequest \<Rightarrow> Route list \<Rightarrow> MatchingRoute list
     \<Rightarrow> MatchingRoute list option" where
  "findMatchingRoutes_loop L h request rs foundMatching =
     (case rs of
        [] \<Rightarrow> Some foundMatching
      | rt # rest \<Rightarrow>
          (case handler rt of
             RouterHandler k \<Rightarrow>
               Option.bind (findMatchingRoutes_loop L h request (routes (h k)) [])
                 (\<lambda>nested. findMatchingRoutes_loop L h request rest (foundMatching @ nested))
           | FunctionHandler f \<Rightarrow>
               (let matchRoute = match L rt request in
                findMatchingRoutes_loop L h request rest
                  (if doesMatch matchRoute
                   then foundMatching @ [\<lparr>mr_route = rt, mr_match = pathMatch matchRoute\<rparr>]
                   else foundMatching))))"

definition findMatchingRoutes ::
  "UrlPatternLib \<Rightarrow> ('p, 'o) heap \<Rightarrow> rid \<Rightarrow> 'd RouterRequest \<Rightarrow> MatchingRoute list option" where
  "findMatchingRoutes L h this request = findMatchingRoutes_loop L h request (routes (h this)) []"

section \<open>Router: dispatch\<close>

text \<open>
  A handler function receives the request, the response and the additional data, and
  changes the first two. It is modelled as one atomic step on the pair of request and
  response that may end by throwing: the table \<open>F\<close> gives, for a function identifier, the
  pair after the call and the value thrown, if any. Interleavings of handlers at their
  own suspension points are outside this model.
\<close>

type_synonym ('d, 'p) ctx = "'d RouterRequest \<times> 'p RouterResponse"

type_synonym ('d, 'p) handlers = "fid \<Rightarrow> 'd option \<Rightarrow> ('d, 'p) ctx \<Rightarrow> error option \<times> ('d, 'p) ctx"

text \<open>Calling \<^verbatim>\<open>route.handler\<close> as a function; a Router object is not callable.\<close>

fun call_handler ::
  "('d, 'p) handlers \<Rightarrow> RouteHandler \<Rightarrow> 'd option \<Rightarrow> ('d, 'p) ctx \<Rightarrow> error option \<times> ('d, 'p) ctx" where
  "call_handler F (FunctionHandler f) ad c = F f ad c"
| "call_handler F (RouterHandler k) ad c = (Some TypeError, c)"

definition executeMiddleware ::
  "('d, 'p) handlers \<Rightarrow> 'd option \<Rightarrow> Route \<Rightarrow> ('d, 'p) ctx \<Rightarrow> error option \<times> ('d, 'p) ctx" where
  "executeMiddleware F ad middleware c = call_handler F (handler middleware) ad c"

text \<open>The waterfall branch: each middleware is awaited before the next one starts, and a
  rejection leaves the loop.\<close>

fun waterfall ::
  "('d, 'p) handlers \<Rightarrow> 'd option \<Rightarrow> MatchingRoute list \<Rightarrow> ('d, 'p) ctx \<Rightarrow> error option \<times> ('d, 'p) ctx" where
  "waterfall F ad [] c = (None, c)"
| "waterfall F ad (m # ms) c =
     (case executeMiddleware F ad (mr_route m) c of
        (Some e, c') \<Rightarrow> (Some e, c')
      | (None, c') \<Rightarrow> waterfall F ad ms c')"

text \<open>The \<^verbatim>\<open>Promise.all\<close> branch: \<^verbatim>\<open>map\<close> starts every middleware, in order, and the
  first rejection is the one the join surfaces.\<close>

fun promise_all ::
  "('d, 'p) handlers \<Rightarrow> 'd option \<Rightarrow> MatchingRoute list \<Rightarrow> ('d, 'p) ctx \<Rightarrow> error option \<times> ('d, 'p) ctx" where
  "promise_all F ad [] c = (None, c)"
| "promise_all F ad (m # ms) c =
     (case executeMiddleware F ad (mr_route m) c of
        (Some e, c') \<Rightarrow> (Some e, snd (promise_all F ad ms c'))
      | (None, c') \<Rightarrow> promise_all F ad ms c')"

text \<open>The argument of \<^verbatim>\<open>serve\<close>: a raw request or an instance of \<^verbatim>\<open>RouterRequest\<close>.\<close>

datatype 'd ServeInput = Raw IncomingRequest | Wrapped "'d RouterRequest"

text \<open>What the promise returned by \<^verbatim>\<open>serve\<close> resolves with.\<close>

datatype 'v Resolution = Undefined | Value 'v

text \<open>The outcome of a call of \<^verbatim>\<open>serve\<close>: \<open>settled\<close> is the rejection (\<open>Inl\<close>) or the
  value the promise resolves with, \<open>console\<close> the values passed to \<^verbatim>\<open>console.log\<close>, and
  \<open>final\<close> the request and response objects as the call leaves them.\<close>

record ('d, 'p, 'o) Served =
  settled :: "error + ('p, 'o) BuiltResponse Resolution"
  console :: "('p, 'o) BuiltResponse list"
  final :: "('d, 'p) ctx"

text \<open>\<^verbatim>\<open>Router.serve\<close>. \<^verbatim>\<open>.find(matchingRoute => matchingRoute)\<close> returns the first element,
  every element being an object. The function has no \<^verbatim>\<open>return\<close> statement.\<close>

definition serve ::
  "UrlPatternLib \<Rightarrow> ('d, 'p) handlers \<Rightarrow> 'p \<Rightarrow> ('p, 'o) heap \<Rightarrow> rid \<Rightarrow> 'd ServeInput \<Rightarrow> 'd option
     \<Rightarrow> 'p RouterResponse option \<Rightarrow> ('d, 'p, 'o) Served option" where
  "serve L F init h this input ad response0 =
     (let alreadyProcessed = (case input of Wrapped rq \<Rightarrow> True | Raw incoming \<Rightarrow> False);
          request = (case input of Raw incoming \<Rightarrow> new_RouterRequest incoming ad | Wrapped rq \<Rightarrow> rq);
          resp = (case response0 of Some rs \<Rightarrow> rs | None \<Rightarrow> new_RouterResponse init request)
      in
      if \<not> alreadyProcessed then
        (case findMatchingRoutes L h this request of
           None \<Rightarrow> None
         | Some foundMatchingRoutes \<Rightarrow>
             (let middlewares = filter (\<lambda>m. isMiddleware (mr_route m)) foundMatchingRoutes;
                  responseHandler =
                    find (\<lambda>m. True) (filter (\<lambda>m. \<not> isMiddleware (mr_route m)) foundMatchingRoutes)
              in
              case responseHandler of
                None \<Rightarrow> Some \<lparr>settled = Inl NoHandlerFound, console = [], final = (request, resp)\<rparr>
              | Some rh \<Rightarrow>
                  (let c0 = (setParams request (mr_match rh), setRoute resp (mr_route rh));
                       (e1, c1) =
                         (if length middlewares > 0 then
                            (if isWaterfall (h this) then waterfall F ad middlewares c0
                             else promise_all F ad middlewares c0)
                          else (None, c0))
                   in
                   case e1 of
                     Some e \<Rightarrow> Some \<lparr>settled = Inl e, console = [], final = c1\<rparr>
                   | None \<Rightarrow>
                       (case call_handler F (handler (mr_route rh)) ad c1 of
                          (Some e, c2) \<Rightarrow> Some \<lparr>settled = Inl e, console = [], final = c2\<rparr>
                        | (None, c2) \<Rightarrow>
                            (let builtResponse = buildResponse h (snd c2)
                             in Some \<lparr>settled = Inr Undefined, console = [builtResponse],
                                      final = c2\<rparr>)))))
      else Some \<lparr>settled = Inr Undefined, console = [], final = (request, resp)\<rparr>)"

section \<open>A pattern library for examples\<close>

text \<open>
  Modelled from the spec: the matcher of the external pattern library, as the spec
  describes it. Matching is structural: pattern and path are cut at the separators, the
  numbers of segments agree, a literal segment equals the path's segment, and a segment
  that starts with the parameter marker \<^verbatim>\<open>:\<close> captures the path's segment under its name.
  The spec names no malformed pattern, so every string compiles.
\<close>

fun split_on :: "char \<Rightarrow> string \<Rightarrow> string list" where
  "split_on c [] = [[]]"
| "split_on c (x # xs) =
     (if x = c then [] # split_on c xs
      else (case split_on c xs of [] \<Rightarrow> [[x]] | w # ws \<Rightarrow> (x # w) # ws))"

fun match_segments :: "string list \<Rightarrow> string list \<Rightarrow> params option" where
  "match_segments [] [] = Some []"
| "match_segments (p # ps) (c # cs) =
     (if p \<noteq> [] \<and> hd p = CHR '':'' then
        (if c = [] then None
         else (case match_segments ps cs of None \<Rightarrow> None | Some m \<Rightarrow> Some ((tl p, c) # m)))
      else if p = c then match_segments ps cs else None)"
| "match_segments ps cs = None"

definition segment_lib :: UrlPatternLib where
  "segment_lib =
     \<lparr>compiles = (\<lambda>s. True),
      pattern_match = (\<lambda>s p. match_segments (split_on CHR ''/'' s) (split_on CHR ''/'' p))\<rparr>"

section \<open>Notions used in the statements\<close>

text \<open>The options from which \<^verbatim>\<open>setBasePath\<close> rebuilds a Route.\<close>

abbreviation options_of :: "Route \<Rightarrow> RouteOptions" where
  "options_of oldRoute \<equiv>
     \<lparr>o_path = inputPath (path oldRoute), o_handler = handler oldRoute,
      o_method = Some (method oldRoute), o_isMiddleware = Some (isMiddleware oldRoute)\<rparr>"

text \<open>A Route can be rebuilt by the Router \<open>R\<close> when \<^verbatim>\<open>createRoute\<close> accepts its method and
  handler and its path under the base path of \<open>R\<close> compiles.\<close>

definition rebuildable :: "UrlPatternLib \<Rightarrow> ('p, 'o) Router \<Rightarrow> Route \<Rightarrow> bool" where
  "rebuildable L R rt \<longleftrightarrow>
     (method rt = ANY \<or> \<not> instanceof_Router (handler rt))
     \<and> compiles L (fixPath R (inputPath (path rt)))"

text \<open>The nesting graph of a heap: the pair \<open>(k', k)\<close> says that the Router at \<open>k\<close> has a
  Route whose handler is the Router at \<open>k'\<close>.\<close>

definition nests :: "('p, 'o) heap \<Rightarrow> (rid \<times> rid) set" where
  "nests h = {(k', k). \<exists>rt \<in> set (routes (h k)). handler rt = RouterHandler k'}"

text \<open>The Routers that can be reached from \<open>this\<close> by following such routes, \<open>this\<close> included.\<close>

definition nested_in :: "('p, 'o) heap \<Rightarrow> rid \<Rightarrow> rid set" where
  "nested_in h this = {k. (k, this) \<in> (nests h)\<^sup>*}"

text \<open>The nesting graph of \<open>this\<close> is acyclic: no Router reached from \<open>this\<close> reaches
  itself.\<close>

definition acyclic_nesting :: "('p, 'o) heap \<Rightarrow> rid \<Rightarrow> bool" where
  "acyclic_nesting h this \<longleftrightarrow> (\<forall>k \<in> nested_in h this. (k, k) \<notin> (nests h)\<^sup>+)"

text \<open>The entry \<^verbatim>\<open>findMatchingRoutes\<close> records for a matching Route.\<close>

definition found :: "UrlPatternLib \<Rightarrow> 'd RouterRequest \<Rightarrow> Route \<Rightarrow> MatchingRoute" where
  "found L request rt = \<lparr>mr_route = rt, mr_match = pathMatch (match L rt request)\<rparr>"

text \<open>What one Route of a Router contributes to the result of discovery: the matches of
  the nested Router, or the Route itself when it matches.\<close>

definition contribution ::
  "UrlPatternLib \<Rightarrow> ('p, 'o) heap \<Rightarrow> 'd RouterRequest \<Rightarrow> Route \<Rightarrow> MatchingRoute list" where
  "contribution L h request rt =
     (case handler rt of
        RouterHandler k \<Rightarrow>
          (case findMatchingRoutes L h k request of None \<Rightarrow> [] | Some nested \<Rightarrow> nested)
      | FunctionHandler f \<Rightarrow>
          (if doesMatch (match L rt request) then [found L request rt] else []))"

section \<open>Example Routers\<close>

text \<open>A Router as \<^verbatim>\<open>new Router()\<close> leaves it, and the heap that holds such a Router at
  every address. The payload of the examples is a list of named strings.\<close>

definition fresh_router :: "(params, string) Router" where
  "fresh_router =
     \<lparr>basePath = ''/'', isWaterfall = True, routes = [], customResponseTransformer = None\<rparr>"

definition fresh_heap :: "(params, string) heap" where
  "fresh_heap = (\<lambda>k. fresh_router)"

text \<open>A Router whose base path is \<^verbatim>\<open>/api/\<close>.\<close>

definition api_router :: "(params, string) Router" where
  "api_router = fresh_router\<lparr>basePath := ''/api/''\<rparr>"

text \<open>The Route that the constructor of \<^verbatim>\<open>Route\<close> builds for the Router at \<open>k\<close> of the
  fresh heap.\<close>

definition example_route :: "rid \<Rightarrow> Methods \<Rightarrow> string \<Rightarrow> RouteHandler \<Rightarrow> bool \<Rightarrow> Route" where
  "example_route k m p hdl mw =
     projr (new_Route segment_lib fresh_heap k
              \<lparr>o_path = p, o_handler = hdl, o_method = Some m, o_isMiddleware = Some mw\<rparr>)"

text \<open>A raw request and its wrapped form.\<close>

definition raw_request :: "string \<Rightarrow> string \<Rightarrow> IncomingRequest" where
  "raw_request m p = \<lparr>in_method = m, in_path = p\<rparr>"

definition wrapped_request :: "string \<Rightarrow> string \<Rightarrow> unit RouterRequest" where
  "wrapped_request m p = new_RouterRequest (raw_request m p) None"

text \<open>Handler functions: function 0 copies the captured parameters into the payload,
  function 1 throws, and every other function adds its number to the payload.\<close>

definition example_handlers :: "(unit, params) handlers" where
  "example_handlers f ad c =
     (if f = 0 then
        (None, (fst c, (snd c)\<lparr>response := (case params (fst c) of None \<Rightarrow> [] | Some ps \<Rightarrow> ps)\<rparr>))
      else if f = 1 then (Some (Thrown ''handler failed''), c)
      else (None, (fst c, (snd c)\<lparr>response := response (snd c) @ [(''ran'', replicate f CHR ''x'')]\<rparr>)))"

text \<open>One Router with a single route that accepts any method.\<close>

definition any_route :: Route where
  "any_route = example_route 0 ANY ''/users/:id'' (FunctionHandler 0) False"

text \<open>One Router with the route \<^verbatim>\<open>GET /users/:id\<close>.\<close>

definition users_heap :: "(params, string) heap" where
  "users_heap =
     fresh_heap(0 := fresh_router
       \<lparr>routes := [example_route 0 GET ''/users/:id'' (FunctionHandler 0) False]\<rparr>)"

text \<open>One Router with the route \<^verbatim>\<open>GET /widgets\<close>.\<close>

definition widgets_heap :: "(params, string) heap" where
  "widgets_heap =
     fresh_heap(0 := fresh_router
       \<lparr>routes := [example_route 0 GET ''/widgets'' (FunctionHandler 0) False]\<rparr>)"

text \<open>The Router at 0 has the routes A, B and E, where B mounts the Router at 1, which
  has the routes C and D.\<close>

definition route_A :: Route where
  "route_A = example_route 0 GET ''/items'' (FunctionHandler 2) True"

definition route_B :: Route where
  "route_B = example_route 0 ANY ''/'' (RouterHandler 1) False"

definition route_C :: Route where
  "route_C = example_route 1 GET ''/items'' (FunctionHandler 3) True"

definition route_D :: Route where
  "route_D = example_route 1 GET ''/items'' (FunctionHandler 0) False"

definition route_E :: Route where
  "route_E = example_route 0 GET ''/items'' (FunctionHandler 4) False"

definition nested_heap :: "(params, string) heap" where
  "nested_heap =
     fresh_heap(0 := fresh_router\<lparr>routes := [route_A, route_B, route_E]\<rparr>,
                1 := fresh_router\<lparr>routes := [route_C, route_D]\<rparr>)"

text \<open>A Router that mounts itself.\<close>

definition self_heap :: "(params, string) heap" where
  "self_heap =
     fresh_heap(0 := fresh_router\<lparr>routes := [example_route 0 ANY ''/'' (RouterHandler 0) False]\<rparr>)"

section \<open>Facts about strings\<close>

lemma endsWith_sep: "endsWith s ''/'' \<longleftrightarrow> s \<noteq> [] \<and> last s = CHR ''/''"
proof (cases s rule: rev_cases)
  case Nil
  then show ?thesis by (simp add: endsWith_def)
next
  case (snoc ys y)
  then show ?thesis by (simp add: endsWith_def)
qed

lemma startsWith_sep: "startsWith s ''/'' \<longleftrightarrow> s \<noteq> [] \<and> hd s = CHR ''/''"
  by (cases s) (simp_all add: startsWith_def)

lemma trailing_separators_snoc: "trailing_separators (s @ ''/'') = Suc (trailing_separators s)"
  by (simp add: trailing_separators_def)

lemma trailing_separators_pos: "endsWith s ''/'' \<Longrightarrow> 1 \<le> trailing_separators s"
  by (cases s rule: rev_cases) (auto simp add: endsWith_sep trailing_separators_def)

lemma trailing_separators_zero: "\<not> endsWith s ''/'' \<Longrightarrow> trailing_separators s = 0"
  by (cases s rule: rev_cases) (auto simp add: endsWith_sep trailing_separators_def)

lemmas string_ops = fixPath_def startsWith_def endsWith_def slice1_def

section \<open>Path normalisation: results\<close>

lemma fixPath_endsWith: "endsWith (fixPath this p) ''/''"
  by (simp add: fixPath_def Let_def endsWith_sep)

lemma fixPath_startsWith:
  "startsWith (fixPath this p) (if basePath this = [] then ''/'' else basePath this)"
  by (simp add: fixPath_def Let_def startsWith_def)

lemma fixPath_prefix:
  "\<exists>t. fixPath this p = (if basePath this = [] then ''/'' else basePath this) @ t"
  by (simp add: fixPath_def Let_def)

lemma fixPath_length:
  "length (if basePath this = [] then ''/'' else basePath this)
     + length (if startsWith p ''/'' then slice1 p else p) \<le> length (fixPath this p)"
  by (simp add: fixPath_def Let_def)

text \<open>Under the base path \<^verbatim>\<open>/\<close> a normalised path is a fixed point.\<close>

lemma fixPath_root_idem:
  assumes "basePath this = [] \<or> basePath this = ''/''"
  shows "fixPath this (fixPath this p) = fixPath this p"
proof -
  from assms fixPath_prefix [of this p] obtain t where t: "fixPath this p = ''/'' @ t"
    by auto
  have "endsWith (''/'' @ t) ''/''"
    using fixPath_endsWith [of this p] t by simp
  then have "fixPath this (''/'' @ t) = ''/'' @ t"
    using assms by (auto simp add: fixPath_def Let_def startsWith_sep slice1_def)
  with t show ?thesis by simp
qed

text \<open>Under any other base path the second normalisation puts the base path in front
  once more, and the path grows.\<close>

lemma fixPath_other_grows:
  assumes "basePath this \<noteq> []" and "basePath this \<noteq> ''/''"
  shows "length (fixPath this p) < length (fixPath this (fixPath this p))"
proof -
  from assms fixPath_prefix [of this p] obtain t where t: "fixPath this p = basePath this @ t"
    by auto
  have "length (basePath this @ t) < length (basePath this)
          + length (if startsWith (basePath this @ t) ''/''
                    then slice1 (basePath this @ t) else basePath this @ t)"
  proof (cases "startsWith (basePath this @ t) ''/''")
    case True
    with assms obtain b where b: "basePath this = CHR ''/'' # b" "b \<noteq> []"
      by (cases "basePath this") (auto simp add: startsWith_sep)
    with True show ?thesis by (simp add: slice1_def)
  next
    case False
    with assms show ?thesis by simp
  qed
  also have "\<dots> \<le> length (fixPath this (basePath this @ t))"
    using fixPath_length [of this "basePath this @ t"] assms by simp
  finally show ?thesis using t by simp
qed

lemma fixPath_trailing:
  "trailing_separators (fixPath this p) =
       max 1 (trailing_separators ((if basePath this = [] then ''/'' else basePath this)
                                     @ (if startsWith p ''/'' then slice1 p else p)))"
proof -
  define q where "q = (if basePath this = [] then ''/'' else basePath this)
                        @ (if startsWith p ''/'' then slice1 p else p)"
  have fp: "fixPath this p = (if endsWith q ''/'' then q else q @ ''/'')"
    by (simp add: fixPath_def q_def)
  show ?thesis
  proof (cases "endsWith q ''/''")
    case True
    then show ?thesis using trailing_separators_pos [of q] fp by (simp add: q_def max_def)
  next
    case False
    then have "trailing_separators (q @ ''/'') = 1"
      using trailing_separators_zero [of q] trailing_separators_snoc [of q] by simp
    with False fp trailing_separators_zero [of q] show ?thesis by (simp add: q_def)
  qed
qed

text \<open>
  C4, as stated: for every base path and every input path, normalising a normalised path
  again gives the same string. This fails: under the base path \<^verbatim>\<open>/api/\<close> the path
  \<^verbatim>\<open>widgets\<close> becomes \<^verbatim>\<open>/api/widgets/\<close>, and that becomes \<^verbatim>\<open>/api/api/widgets/\<close>.
\<close>

theorem fixPath_not_idempotent:
  "fixPath api_router ''widgets'' = ''/api/widgets/''
   \<and> fixPath api_router (fixPath api_router ''widgets'') = ''/api/api/widgets/''
   \<and> fixPath api_router (fixPath api_router ''widgets'') \<noteq> fixPath api_router ''widgets''"
  by (simp add: api_router_def fresh_router_def string_ops)

text \<open>
  C4, amended: \<^verbatim>\<open>fixPath\<close> is idempotent exactly on a Router whose base path is \<^verbatim>\<open>/\<close> (or
  empty, which \<^verbatim>\<open>fixPath\<close> reads as \<^verbatim>\<open>/\<close>): there \<^verbatim>\<open>fixPath(fixPath(P))\<close> equals
  \<^verbatim>\<open>fixPath(P)\<close> for every path \<open>P\<close>, and under every other base path it differs for
  every \<open>P\<close>.
\<close>

theorem fixPath_idempotent_iff:
  "fixPath this (fixPath this p) = fixPath this p
     \<longleftrightarrow> basePath this = [] \<or> basePath this = ''/''"
  using fixPath_root_idem [of this p] fixPath_other_grows [of this p] by fastforce

text \<open>The amended C4 at the Router with base path \<^verbatim>\<open>/\<close> and the path \<^verbatim>\<open>/widgets\<close>.\<close>

theorem fixPath_idempotent_iff_witness:
  "basePath fresh_router = ''/''
   \<and> fixPath fresh_router (fixPath fresh_router ''/widgets'') = fixPath fresh_router ''/widgets''"
  using fixPath_idempotent_iff [of fresh_router "''/widgets''"] by (simp add: fresh_router_def)

text \<open>
  C5, as stated: every normalised path ends with exactly one separator. This fails: under
  the base path \<^verbatim>\<open>/\<close> the path \<^verbatim>\<open>widgets//\<close> becomes \<^verbatim>\<open>/widgets//\<close>, which ends with two.
\<close>

theorem fixPath_two_trailing_separators:
  "fixPath fresh_router ''widgets//'' = ''/widgets//''
   \<and> trailing_separators (fixPath fresh_router ''widgets//'') = 2"
  by (simp add: fresh_router_def string_ops trailing_separators_def)

text \<open>
  C5, amended: for every base path \<open>B\<close> and every input path \<open>P\<close>, the normalised path
  starts with \<open>B\<close> (with \<^verbatim>\<open>/\<close> when \<open>B\<close> is empty), hence with the leading separator of \<open>B\<close>
  when \<open>B\<close> has one, and it ends with a separator. The number of separators it ends with
  is the number that \<open>B\<close> followed by \<open>P\<close> without its leading separator ends with, and one
  when that string ends with none.
\<close>

theorem fixPath_shape:
  "startsWith (fixPath this p) (if basePath this = [] then ''/'' else basePath this)
   \<and> (basePath this = [] \<or> startsWith (basePath this) ''/'' \<longrightarrow> startsWith (fixPath this p) ''/'')
   \<and> endsWith (fixPath this p) ''/''
   \<and> trailing_separators (fixPath this p) =
       max 1 (trailing_separators ((if basePath this = [] then ''/'' else basePath this)
                                     @ (if startsWith p ''/'' then slice1 p else p)))"
proof -
  have "basePath this = [] \<or> startsWith (basePath this) ''/'' \<longrightarrow> startsWith (fixPath this p) ''/''"
    by (auto simp add: fixPath_def Let_def startsWith_sep)
  then show ?thesis
    using fixPath_startsWith [of this p] fixPath_endsWith [of this p] fixPath_trailing [of this p]
    by blast
qed

text \<open>The amended C5 at the base path \<^verbatim>\<open>/api/\<close> and the path \<^verbatim>\<open>widgets\<close>.\<close>

theorem fixPath_shape_witness:
  "startsWith (basePath api_router) ''/''
   \<and> fixPath api_router ''widgets'' = ''/api/widgets/''
   \<and> startsWith (fixPath api_router ''widgets'') ''/''
   \<and> endsWith (fixPath api_router ''widgets'') ''/''
   \<and> trailing_separators (fixPath api_router ''widgets'') = 1"
  using fixPath_shape [of api_router "''widgets''"]
  by (simp add: api_router_def fresh_router_def string_ops trailing_separators_def)

section \<open>Route matching: results\<close>

lemma example_route_eq:
  "example_route k m p hdl mw =
     \<lparr>router = k, method = m,
      path = \<lparr>pattern = UrlPattern (fixPath fresh_router p),
              formattedPath = fixPath fresh_router p, inputPath = p\<rparr>,
      handler = hdl,
      isMiddleware = (if instanceof_Router hdl then False else mw),
      isRouterHandler = instanceof_Router hdl\<rparr>"
  by (simp add: example_route_def new_Route_def createUrlPattern_def segment_lib_def fresh_heap_def)

text \<open>What \<^verbatim>\<open>Route.match\<close> computes, for every method of the Route: the path matches and
  the two method strings are equal after \<^verbatim>\<open>toUpperCase\<close>.\<close>

lemma doesMatch_iff:
  "doesMatch (match L rt request) \<longleftrightarrow>
     matchPath L rt request \<noteq> None
     \<and> toUpperCase (method_string (method rt)) = toUpperCase (req_method request)"
  by (simp add: match_def Let_def)

lemma doesMatch_ANY_iff:
  "method rt = ANY \<Longrightarrow>
   doesMatch (match L rt request) \<longleftrightarrow>
     matchPath L rt request \<noteq> None \<and> toUpperCase (req_method request) = ''ANY''"
proof -
  have "toUpperCase ''ANY'' = ''ANY''"
    by (simp add: toUpperCase_def upper_char_def)
  then show "method rt = ANY \<Longrightarrow> ?thesis"
    by (auto simp add: doesMatch_iff)
qed

text \<open>
  C1: a Route whose method is \<^verbatim>\<open>ANY\<close> matches every request whose path matches, whatever
  the method of the request. The code compares the method strings for every Route, so
  the Route built for \<^verbatim>\<open>ANY /users/:id\<close> rejects the request \<^verbatim>\<open>GET /users/42/\<close> although
  its pattern matches the path.
\<close>

theorem match_ANY_rejects_GET:
  "new_Route segment_lib fresh_heap 0
      \<lparr>o_path = ''/users/:id'', o_handler = FunctionHandler 0, o_method = Some ANY,
       o_isMiddleware = None\<rparr> = Inr any_route
   \<and> matchPath segment_lib any_route (wrapped_request ''GET'' ''/users/42/'') = Some [(''id'', ''42'')]
   \<and> \<not> doesMatch (match segment_lib any_route (wrapped_request ''GET'' ''/users/42/''))"
proof (intro conjI)
  show "new_Route segment_lib fresh_heap 0
      \<lparr>o_path = ''/users/:id'', o_handler = FunctionHandler 0, o_method = Some ANY,
       o_isMiddleware = None\<rparr> = Inr any_route"
    by (simp add: any_route_def example_route_eq new_Route_def createUrlPattern_def
        segment_lib_def fresh_heap_def)
  show "matchPath segment_lib any_route (wrapped_request ''GET'' ''/users/42/'') = Some [(''id'', ''42'')]"
    by (simp add: any_route_def example_route_eq matchPath_def wrapped_request_def
        raw_request_def new_RouterRequest_def segment_lib_def string_ops fresh_router_def)
  show "\<not> doesMatch (match segment_lib any_route (wrapped_request ''GET'' ''/users/42/''))"
    by (simp add: match_def Let_def any_route_def example_route_eq wrapped_request_def
        raw_request_def new_RouterRequest_def toUpperCase_def upper_char_def)
qed

section \<open>The examples are built by registration\<close>

text \<open>On a Router with base path \<^verbatim>\<open>/\<close>, \<^verbatim>\<open>createRoute\<close> appends the example Route; the example
  heaps are what the registration calls leave behind, starting from fresh Routers.\<close>

lemma createRoute_example:
  assumes "basePath (h k) = ''/''" and "m = ANY \<or> \<not> instanceof_Router hdl"
  shows "createRoute segment_lib h k
       \<lparr>o_path = p, o_handler = hdl, o_method = Some m, o_isMiddleware = Some mw\<rparr>
     = (Inr (example_route k m p hdl mw),
        h(k := (h k)\<lparr>routes := routes (h k) @ [example_route k m p hdl mw]\<rparr>))"
  using assms
  by (auto simp add: createRoute_def example_route_def new_Route_def createUrlPattern_def
      segment_lib_def fresh_heap_def fresh_router_def fixPath_def)

lemma nested_heap_registered:
  "snd (createRoute segment_lib
     (snd (createRoute segment_lib
       (snd (createRoute segment_lib
         (snd (createRoute segment_lib
           (snd (createRoute segment_lib fresh_heap 1
              \<lparr>o_path = ''/items'', o_handler = FunctionHandler 3, o_method = Some GET, o_isMiddleware = Some True\<rparr>))
           1 \<lparr>o_path = ''/items'', o_handler = FunctionHandler 0, o_method = Some GET, o_isMiddleware = Some False\<rparr>))
         0 \<lparr>o_path = ''/items'', o_handler = FunctionHandler 2, o_method = Some GET, o_isMiddleware = Some True\<rparr>))
       0 \<lparr>o_path = ''/'', o_handler = RouterHandler 1, o_method = Some ANY, o_isMiddleware = Some False\<rparr>))
     0 \<lparr>o_path = ''/items'', o_handler = FunctionHandler 4, o_method = Some GET, o_isMiddleware = Some False\<rparr>)
   = nested_heap"
  by (rule ext)
    (simp add: createRoute_example fresh_heap_def fresh_router_def nested_heap_def
      route_A_def route_B_def route_C_def route_D_def route_E_def)

lemma users_heap_registered:
  "get segment_lib fresh_heap 0 ''/users/:id'' (FunctionHandler 0) = (Inr (), users_heap)"
  by (simp add: get_def createRoute_example fresh_heap_def fresh_router_def users_heap_def)

lemma self_heap_registered:
  "snd (createRoute segment_lib fresh_heap 0
      \<lparr>o_path = ''/'', o_handler = RouterHandler 0, o_method = Some ANY, o_isMiddleware = Some False\<rparr>)
   = self_heap"
  by (simp add: createRoute_example fresh_heap_def fresh_router_def self_heap_def)

section \<open>Base path: results\<close>

lemma createRoute_rebuildable:
  assumes "rebuildable L (h this) rt"
  shows "\<exists>rt'. createRoute L h this (options_of rt)
            = (Inr rt', h(this := (h this)\<lparr>routes := routes (h this) @ [rt']\<rparr>))
          \<and> method rt' = method rt \<and> handler rt' = handler rt
          \<and> inputPath (path rt') = inputPath (path rt)
          \<and> formattedPath (path rt') = fixPath (h this) (inputPath (path rt))
          \<and> pattern (path rt') = UrlPattern (fixPath (h this) (inputPath (path rt)))"
  using assms
  by (auto simp add: rebuildable_def createRoute_def new_Route_def createUrlPattern_def Let_def)

lemma createRoute_not_rebuildable:
  assumes "\<not> rebuildable L (h this) rt"
  shows "\<exists>e. createRoute L h this (options_of rt) = (Inl e, h)"
  using assms
  by (auto simp add: rebuildable_def createRoute_def new_Route_def createUrlPattern_def Let_def)

lemma rebuildable_cong:
  "basePath R' = basePath R \<Longrightarrow> method rt' = method rt \<Longrightarrow> handler rt' = handler rt
    \<Longrightarrow> inputPath (path rt') = inputPath (path rt)
    \<Longrightarrow> rebuildable L R' rt' = rebuildable L R rt"
  by (simp add: rebuildable_def fixPath_def)

lemma setBasePath_loop_returns:
  assumes "setBasePath_loop L h this i newRoutes = Some res"
  shows "(\<forall>rt \<in> set (routes (h this)). rebuildable L (h this) rt) \<longrightarrow> length (routes (h this)) \<le> i"
proof (rule setBasePath_loop.raw_induct
    [where P = "\<lambda>L h this i newRoutes res.
       (\<forall>rt \<in> set (routes (h this)). rebuildable L (h this) rt) \<longrightarrow> length (routes (h this)) \<le> i",
     OF _ assms])
  fix loop :: "UrlPatternLib \<Rightarrow> ('a, 'b) heap \<Rightarrow> rid \<Rightarrow> nat \<Rightarrow> Route list
     \<Rightarrow> ((error + Route list) \<times> ('a, 'b) heap) option"
  fix L h this i newRoutes res
  assume IH: "\<And>L h this i newRoutes res. loop L h this i newRoutes = Some res \<Longrightarrow>
       (\<forall>rt \<in> set (routes (h this)). rebuildable L (h this) rt) \<longrightarrow> length (routes (h this)) \<le> i"
  assume body: "(if i < length (routes (h this)) then
        (let oldRoute = routes (h this) ! i in
         case createRoute L h this
                \<lparr>o_path = inputPath (path oldRoute), o_handler = handler oldRoute,
                 o_method = Some (method oldRoute), o_isMiddleware = Some (isMiddleware oldRoute)\<rparr> of
           (Inl e, h') \<Rightarrow> Some (Inl e, h')
         | (Inr newRoute, h') \<Rightarrow> loop L h' this (Suc i) (newRoutes @ [newRoute]))
      else Some (Inr newRoutes, h)) = Some res"
  show "(\<forall>rt \<in> set (routes (h this)). rebuildable L (h this) rt) \<longrightarrow> length (routes (h this)) \<le> i"
  proof (intro impI)
    assume all: "\<forall>rt \<in> set (routes (h this)). rebuildable L (h this) rt"
    show "length (routes (h this)) \<le> i"
    proof (rule ccontr)
      assume "\<not> length (routes (h this)) \<le> i"
      then have lt: "i < length (routes (h this))" by simp
      define old where "old = routes (h this) ! i"
      from lt all have rb: "rebuildable L (h this) old"
        by (simp add: old_def)
      from rb createRoute_rebuildable [of L h this old] obtain rt' where
        cr: "createRoute L h this (options_of old)
               = (Inr rt', h(this := (h this)\<lparr>routes := routes (h this) @ [rt']\<rparr>))"
        and same: "method rt' = method old" "handler rt' = handler old"
          "inputPath (path rt') = inputPath (path old)"
        by blast
      define h' where "h' = h(this := (h this)\<lparr>routes := routes (h this) @ [rt']\<rparr>)"
      from body lt cr have rec: "loop L h' this (Suc i) (newRoutes @ [rt']) = Some res"
        by (simp add: old_def h'_def Let_def)
      have "rebuildable L (h' this) rt'"
        using rb same rebuildable_cong [of "h' this" "h this" rt' old L] by (simp add: h'_def)
      moreover have "\<forall>rt \<in> set (routes (h this)). rebuildable L (h' this) rt"
        using all rebuildable_cong [of "h' this" "h this"] by (simp add: h'_def)
      ultimately have "\<forall>rt \<in> set (routes (h' this)). rebuildable L (h' this) rt"
        by (simp add: h'_def)
      with IH [OF rec] have "length (routes (h' this)) \<le> Suc i" by blast
      with lt show False by (simp add: h'_def)
    qed
  qed
qed

lemma setBasePath_loop_diverges:
  assumes "\<forall>rt \<in> set (routes (h this)). rebuildable L (h this) rt"
    and "i < length (routes (h this))"
  shows "setBasePath_loop L h this i newRoutes = None"
proof (cases "setBasePath_loop L h this i newRoutes")
  case None
  then show ?thesis .
next
  case (Some res)
  from setBasePath_loop_returns [OF Some] assms show ?thesis by simp
qed

lemma setBasePath_diverges:
  assumes "routes (h this) \<noteq> []"
    and "\<forall>rt \<in> set (routes (h this)).
           rebuildable L ((h this)\<lparr>basePath := fixPath ((h this)\<lparr>basePath := ''/''\<rparr>)
              (case p of None \<Rightarrow> ''/'' | Some s \<Rightarrow> if s = [] then ''/'' else s)\<rparr>) rt"
  shows "setBasePath L h this p = None"
proof -
  define h2 where "h2 = h(this := (h this)\<lparr>basePath := fixPath ((h this)\<lparr>basePath := ''/''\<rparr>)
              (case p of None \<Rightarrow> ''/'' | Some s \<Rightarrow> if s = [] then ''/'' else s)\<rparr>)"
  have "setBasePath_loop L h2 this 0 [] = None"
    using assms by (intro setBasePath_loop_diverges) (simp_all add: h2_def)
  then show ?thesis
    by (simp add: setBasePath_def Let_def h2_def)
qed

lemma setBasePath_loop_empty:
  "routes (h this) = [] \<Longrightarrow> setBasePath_loop L h this 0 [] = Some (Inr [], h)"
  by (subst setBasePath_loop.simps) simp

lemma new_Router_result:
  "new_Router L h this options =
     Some (Inr (), h(this := \<lparr>basePath = fixPath \<lparr>basePath = ''/'', isWaterfall = True, routes = [], customResponseTransformer = o_customResponseTransformer options\<rparr>
                (case o_basePath options of None \<Rightarrow> ''/'' | Some s \<Rightarrow> if s = [] then ''/'' else s),
             isWaterfall = True, routes = [],
             customResponseTransformer = o_customResponseTransformer options\<rparr>))"
  by (simp add: new_Router_def setBasePath_def Let_def setBasePath_loop_empty)

text \<open>A Router constructed without options is the fresh Router of the examples.\<close>

lemma fresh_router_new:
  "new_Router L h k \<lparr>o_basePath = None, o_waterfallMiddleware = None, o_customResponseTransformer = None\<rparr>
     = Some (Inr (), h(k := fresh_router))"
  by (simp add: new_Router_result fresh_router_def string_ops)

text \<open>With the option omitted the constructor sets \<^verbatim>\<open>isWaterfall\<close> to true.\<close>

lemma new_Router_omitted:
  "\<exists>h'. new_Router L h this (options\<lparr>o_waterfallMiddleware := None\<rparr>) = Some (Inr (), h')
        \<and> isWaterfall (h' this) = True"
  by (simp add: new_Router_result)

text \<open>
  C2: a Router constructed with \<^verbatim>\<open>waterfallMiddleware: false\<close> has \<^verbatim>\<open>isWaterfall\<close> false and
  runs its middleware concurrently. The code computes
  \<^verbatim>\<open>options.waterfallMiddleware || true\<close>, so for every other option, every heap and every
  address the constructor returns a Router whose \<^verbatim>\<open>isWaterfall\<close> is true.
\<close>

theorem new_Router_waterfall_false:
  "\<exists>h'. new_Router L h this (options\<lparr>o_waterfallMiddleware := Some False\<rparr>) = Some (Inr (), h')
        \<and> isWaterfall (h' this) = True \<and> routes (h' this) = []"
  by (simp add: new_Router_result)

text \<open>The Route \<^verbatim>\<open>GET /widgets\<close> can be rebuilt under every base path; under the base path
  \<^verbatim>\<open>/api/\<close> the Route that \<^verbatim>\<open>setBasePath\<close> builds from it has the path \<^verbatim>\<open>/api/widgets/\<close>.\<close>

lemma widgets_route_rebuildable:
  "rebuildable segment_lib R (example_route 0 GET ''/widgets'' (FunctionHandler 0) False)"
  by (simp add: rebuildable_def example_route_eq segment_lib_def)

lemma rebuilt_widgets_route:
  "fst (createRoute segment_lib (widgets_heap(0 := (widgets_heap 0)\<lparr>basePath := ''/api/''\<rparr>)) 0
         (options_of (example_route 0 GET ''/widgets'' (FunctionHandler 0) False)))
   = Inr ((example_route 0 GET ''/widgets'' (FunctionHandler 0) False)
            \<lparr>path := \<lparr>pattern = UrlPattern ''/api/widgets/'', formattedPath = ''/api/widgets/'',
                      inputPath = ''/widgets''\<rparr>\<rparr>)"
  by (simp add: createRoute_def example_route_eq new_Route_def createUrlPattern_def
        segment_lib_def widgets_heap_def fresh_heap_def fresh_router_def string_ops)

text \<open>
  C6: changing the base path of a Router that owns routes completes and leaves one
  rebuilt Route for each Route owned before. In the code the loop of \<^verbatim>\<open>setBasePath\<close>
  walks \<^verbatim>\<open>this.routes\<close> while \<^verbatim>\<open>createRoute\<close> pushes every rebuilt Route onto that same
  array, so the end of the array is never reached: for the Router that owns the Route
  \<^verbatim>\<open>GET /widgets\<close>, registered by \<^verbatim>\<open>createRoute\<close>, the call with \<^verbatim>\<open>/api/\<close> does not return.
\<close>

theorem setBasePath_widgets_diverges:
  "createRoute segment_lib fresh_heap 0
      \<lparr>o_path = ''/widgets'', o_handler = FunctionHandler 0, o_method = Some GET,
       o_isMiddleware = Some False\<rparr>
     = (Inr (example_route 0 GET ''/widgets'' (FunctionHandler 0) False), widgets_heap)
   \<and> setBasePath segment_lib widgets_heap 0 (Some ''/api/'') = None"
proof
  show "createRoute segment_lib fresh_heap 0
      \<lparr>o_path = ''/widgets'', o_handler = FunctionHandler 0, o_method = Some GET,
       o_isMiddleware = Some False\<rparr>
     = (Inr (example_route 0 GET ''/widgets'' (FunctionHandler 0) False), widgets_heap)"
    by (simp add: createRoute_def example_route_def new_Route_def createUrlPattern_def
        segment_lib_def widgets_heap_def fresh_heap_def fresh_router_def)
  show "setBasePath segment_lib widgets_heap 0 (Some ''/api/'') = None"
    by (rule setBasePath_diverges) (simp_all add: widgets_heap_def widgets_route_rebuildable)
qed

section \<open>Route discovery: results\<close>

lemma loop_Nil: "findMatchingRoutes_loop L h request [] acc = Some acc"
  by (subst findMatchingRoutes_loop.simps) simp

lemma loop_Cons_router:
  "handler rt = RouterHandler k \<Longrightarrow>
   findMatchingRoutes_loop L h request (rt # rest) acc =
     Option.bind (findMatchingRoutes_loop L h request (routes (h k)) [])
       (\<lambda>nested. findMatchingRoutes_loop L h request rest (acc @ nested))"
  by (subst findMatchingRoutes_loop.simps) simp

lemma loop_Cons_function:
  "handler rt = FunctionHandler f \<Longrightarrow>
   findMatchingRoutes_loop L h request (rt # rest) acc =
     findMatchingRoutes_loop L h request rest
       (if doesMatch (match L rt request) then acc @ [found L request rt] else acc)"
  by (subst findMatchingRoutes_loop.simps) (simp add: found_def Let_def)

lemma loop_splices:
  "findMatchingRoutes_loop L h request rs acc = Some res \<Longrightarrow>
     res = acc @ concat (map (contribution L h request) rs)"
proof (induction rs arbitrary: acc res)
  case Nil
  then show ?case by (simp add: loop_Nil)
next
  case (Cons rt rest)
  show ?case
  proof (cases "handler rt")
    case (RouterHandler k)
    with Cons.prems obtain nested where
      n: "findMatchingRoutes_loop L h request (routes (h k)) [] = Some nested"
      and r: "findMatchingRoutes_loop L h request rest (acc @ nested) = Some res"
      by (auto simp add: loop_Cons_router bind_eq_Some_conv)
    from n RouterHandler have "contribution L h request rt = nested"
      by (simp add: contribution_def findMatchingRoutes_def)
    with Cons.IH [OF r] show ?thesis by simp
  next
    case (FunctionHandler f)
    with Cons.prems have
      r: "findMatchingRoutes_loop L h request rest
            (if doesMatch (match L rt request) then acc @ [found L request rt] else acc) = Some res"
      by (simp add: loop_Cons_function)
    from FunctionHandler have
      "contribution L h request rt = (if doesMatch (match L rt request) then [found L request rt] else [])"
      by (simp add: contribution_def)
    with Cons.IH [OF r] show ?thesis by simp
  qed
qed

lemma loop_returns_if:
  assumes "\<forall>rt \<in> set rs. \<forall>k. handler rt = RouterHandler k \<longrightarrow>
             (\<exists>res. findMatchingRoutes_loop L h request (routes (h k)) [] = Some res)"
  shows "\<exists>res. findMatchingRoutes_loop L h request rs acc = Some res"
  using assms
proof (induction rs arbitrary: acc)
  case Nil
  then show ?case by (simp add: loop_Nil)
next
  case (Cons rt rest)
  show ?case
  proof (cases "handler rt")
    case (RouterHandler k)
    with Cons.prems obtain nested where
      "findMatchingRoutes_loop L h request (routes (h k)) [] = Some nested"
      by auto
    moreover from Cons have "\<exists>res. findMatchingRoutes_loop L h request rest (acc @ nested) = Some res"
      by simp
    ultimately show ?thesis using RouterHandler by (simp add: loop_Cons_router)
  next
    case (FunctionHandler f)
    with Cons show ?thesis by (simp add: loop_Cons_function)
  qed
qed

lemma acc_returns:
  assumes "k \<in> Wellfounded.acc (nests h)"
  shows "\<exists>res. findMatchingRoutes_loop L h request (routes (h k)) [] = Some res"
  using assms
proof (rule acc_induct)
  fix x
  assume IH: "\<forall>y. (y, x) \<in> nests h \<longrightarrow>
                (\<exists>res. findMatchingRoutes_loop L h request (routes (h y)) [] = Some res)"
  show "\<exists>res. findMatchingRoutes_loop L h request (routes (h x)) [] = Some res"
  proof (rule loop_returns_if, intro ballI allI impI)
    fix rt k'
    assume "rt \<in> set (routes (h x))" and "handler rt = RouterHandler k'"
    then have "(k', x) \<in> nests h" by (auto simp add: nests_def)
    with IH show "\<exists>res. findMatchingRoutes_loop L h request (routes (h k')) [] = Some res"
      by blast
  qed
qed

lemma loop_returns_acc:
  assumes "findMatchingRoutes_loop L h request rs acc = Some res"
  shows "\<forall>rt \<in> set rs. \<forall>k. handler rt = RouterHandler k \<longrightarrow> k \<in> Wellfounded.acc (nests h)"
proof (rule findMatchingRoutes_loop.raw_induct
    [where P = "\<lambda>L h request rs acc res.
        (\<forall>rt \<in> set rs. \<forall>k. handler rt = RouterHandler k \<longrightarrow> k \<in> Wellfounded.acc (nests h))",
     OF _ assms])
  fix loop :: "UrlPatternLib \<Rightarrow> ('a, 'b) heap \<Rightarrow> 'c RouterRequest \<Rightarrow> Route list \<Rightarrow> MatchingRoute list
     \<Rightarrow> MatchingRoute list option"
  fix L h request rs acc res
  assume IH: "\<And>L h request rs acc res. loop L h request rs acc = Some res \<Longrightarrow>
        (\<forall>rt \<in> set rs. \<forall>k. handler rt = RouterHandler k \<longrightarrow> k \<in> Wellfounded.acc (nests h))"
  assume body: "(case rs of
        [] \<Rightarrow> Some acc
      | rt # rest \<Rightarrow>
          (case handler rt of
             RouterHandler k \<Rightarrow>
               Option.bind (loop L h request (routes (h k)) [])
                 (\<lambda>nested. loop L h request rest (acc @ nested))
           | FunctionHandler f \<Rightarrow>
               (let matchRoute = match L rt request in
                loop L h request rest
                  (if doesMatch matchRoute
                   then acc @ [\<lparr>mr_route = rt, mr_match = pathMatch matchRoute\<rparr>]
                   else acc)))) = Some res"
  show "\<forall>rt \<in> set rs. \<forall>k. handler rt = RouterHandler k \<longrightarrow> k \<in> Wellfounded.acc (nests h)"
  proof (cases rs)
    case Nil
    then show ?thesis by simp
  next
    case (Cons r0 rest)
    show ?thesis
    proof (cases "handler r0")
      case (RouterHandler k0)
      from body have "Option.bind (loop L h request (routes (h k0)) [])
                 (\<lambda>nested. loop L h request rest (acc @ nested)) = Some res"
        by (simp only: Cons RouterHandler list.case RouteHandler.case)
      then obtain nested where
        n: "loop L h request (routes (h k0)) [] = Some nested"
        and r: "loop L h request rest (acc @ nested) = Some res"
        by (cases "loop L h request (routes (h k0)) []") simp_all
      have "k0 \<in> Wellfounded.acc (nests h)"
      proof (rule Wellfounded.accI)
        fix y assume "(y, k0) \<in> nests h"
        then obtain rt where "rt \<in> set (routes (h k0))" "handler rt = RouterHandler y"
          unfolding nests_def by blast
        with IH [OF n] show "y \<in> Wellfounded.acc (nests h)" by blast
      qed
      moreover note IH [OF r]
      ultimately show ?thesis
        unfolding Cons using RouterHandler by (simp only: set_simps ball_simps) blast
    next
      case (FunctionHandler f)
      from body have "loop L h request rest
                  (if doesMatch (match L r0 request)
                   then acc @ [\<lparr>mr_route = r0, mr_match = pathMatch (match L r0 request)\<rparr>]
                   else acc) = Some res"
        by (simp only: Cons FunctionHandler list.case RouteHandler.case Let_def)
      from IH [OF this] show ?thesis
        unfolding Cons using FunctionHandler by (simp only: set_simps ball_simps) blast
    qed
  qed
qed

lemma acc_no_cycle:
  assumes "x \<in> Wellfounded.acc r"
  shows "(x, x) \<notin> r\<^sup>+"
  using assms
proof (rule acc_induct)
  fix x
  assume IH: "\<forall>y. (y, x) \<in> r \<longrightarrow> (y, y) \<notin> r\<^sup>+"
  show "(x, x) \<notin> r\<^sup>+"
  proof
    assume "(x, x) \<in> r\<^sup>+"
    then obtain z where "(x, z) \<in> r\<^sup>*" and zx: "(z, x) \<in> r"
      by (auto dest: tranclD2)
    then have "(z, z) \<in> r\<^sup>+" by (auto intro: rtrancl_into_trancl2)
    with IH zx show False by blast
  qed
qed

lemma nests_iff: "(k', k) \<in> nests h \<longleftrightarrow> (\<exists>rt \<in> set (routes (h k)). handler rt = RouterHandler k')"
  by (simp add: nests_def)

lemma nested_in_step: "x \<in> nested_in h this \<Longrightarrow> (y, x) \<in> nests h \<Longrightarrow> y \<in> nested_in h this"
  unfolding nested_in_def by (simp add: converse_rtrancl_into_rtrancl)

lemma returns_imp_acyclic:
  assumes "findMatchingRoutes L h this request = Some res"
  shows "acyclic_nesting h this"
proof -
  from assms have l: "findMatchingRoutes_loop L h request (routes (h this)) [] = Some res"
    by (simp only: findMatchingRoutes_def)
  have this_acc: "this \<in> Wellfounded.acc (nests h)"
  proof (rule Wellfounded.accI)
    fix y assume "(y, this) \<in> nests h"
    then obtain rt where "rt \<in> set (routes (h this))" "handler rt = RouterHandler y"
      unfolding nests_iff by blast
    with loop_returns_acc [OF l] show "y \<in> Wellfounded.acc (nests h)" by blast
  qed
  show ?thesis
    unfolding acyclic_nesting_def
  proof
    fix k assume "k \<in> nested_in h this"
    then have "(k, this) \<in> (nests h)\<^sup>*" by (simp only: nested_in_def mem_Collect_eq)
    with this_acc have "k \<in> Wellfounded.acc (nests h)" by (rule acc_downwards)
    then show "(k, k) \<notin> (nests h)\<^sup>+" by (rule acc_no_cycle)
  qed
qed

lemma acyclic_imp_acc:
  assumes fin: "finite (nested_in h this)" and acy: "acyclic_nesting h this"
  shows "this \<in> Wellfounded.acc (nests h)"
proof -
  define r where "r = {(a, b). (a, b) \<in> nests h \<and> b \<in> nested_in h this}"
  have sub: "r \<subseteq> nested_in h this \<times> nested_in h this"
    unfolding r_def using nested_in_step [of _ h this] by blast
  then have "finite r" using fin by (auto intro: finite_subset)
  moreover have "acyclic r"
  proof (rule acyclicI, intro allI notI)
    fix x assume xx: "(x, x) \<in> r\<^sup>+"
    then have "(x, x) \<in> (nests h)\<^sup>+"
      by (rule trancl_mono) (unfold r_def, blast)
    moreover from xx obtain z where "(z, x) \<in> r" by (auto dest: tranclD2)
    then have "x \<in> nested_in h this" by (simp add: r_def)
    ultimately show False using acy unfolding acyclic_nesting_def by blast
  qed
  ultimately have "wf r" by (rule finite_acyclic_wf)
  then have "this \<in> nested_in h this \<longrightarrow> this \<in> Wellfounded.acc (nests h)"
  proof (rule wf_induct_rule [where P = "\<lambda>x. x \<in> nested_in h this \<longrightarrow> x \<in> Wellfounded.acc (nests h)"])
    fix x
    assume IH: "\<And>y. (y, x) \<in> r \<Longrightarrow> y \<in> nested_in h this \<longrightarrow> y \<in> Wellfounded.acc (nests h)"
    show "x \<in> nested_in h this \<longrightarrow> x \<in> Wellfounded.acc (nests h)"
    proof
      assume x: "x \<in> nested_in h this"
      show "x \<in> Wellfounded.acc (nests h)"
      proof (rule Wellfounded.accI)
        fix y assume yx: "(y, x) \<in> nests h"
        with x have "(y, x) \<in> r" by (simp add: r_def)
        moreover from x yx have "y \<in> nested_in h this"
          by (rule nested_in_step)
        ultimately show "y \<in> Wellfounded.acc (nests h)" using IH by blast
      qed
    qed
  qed
  then show ?thesis by (simp add: nested_in_def)
qed

lemma loop_never_router:
  assumes "findMatchingRoutes_loop L h request rs acc = Some res"
    and "\<forall>m \<in> set acc. \<not> instanceof_Router (handler (mr_route m))"
  shows "\<forall>m \<in> set res. \<not> instanceof_Router (handler (mr_route m))"
proof -
  have "(\<forall>m \<in> set acc. \<not> instanceof_Router (handler (mr_route m)))
          \<longrightarrow> (\<forall>m \<in> set res. \<not> instanceof_Router (handler (mr_route m)))"
  proof (rule findMatchingRoutes_loop.raw_induct
    [where P = "\<lambda>L h request rs acc res.
        (\<forall>m \<in> set acc. \<not> instanceof_Router (handler (mr_route m)))
          \<longrightarrow> (\<forall>m \<in> set res. \<not> instanceof_Router (handler (mr_route m)))",
     OF _ assms(1)])
    fix loop :: "UrlPatternLib \<Rightarrow> ('a, 'b) heap \<Rightarrow> 'c RouterRequest \<Rightarrow> Route list \<Rightarrow> MatchingRoute list
       \<Rightarrow> MatchingRoute list option"
    fix L h request rs acc res
    assume IH: "\<And>L h request rs acc res. loop L h request rs acc = Some res \<Longrightarrow>
        (\<forall>m \<in> set acc. \<not> instanceof_Router (handler (mr_route m)))
          \<longrightarrow> (\<forall>m \<in> set res. \<not> instanceof_Router (handler (mr_route m)))"
    assume body: "(case rs of
        [] \<Rightarrow> Some acc
      | rt # rest \<Rightarrow>
          (case handler rt of
             RouterHandler k \<Rightarrow>
               Option.bind (loop L h request (routes (h k)) [])
                 (\<lambda>nested. loop L h request rest (acc @ nested))
           | FunctionHandler f \<Rightarrow>
               (let matchRoute = match L rt request in
                loop L h request rest
                  (if doesMatch matchRoute
                   then acc @ [\<lparr>mr_route = rt, mr_match = pathMatch matchRoute\<rparr>]
                   else acc)))) = Some res"
    show "(\<forall>m \<in> set acc. \<not> instanceof_Router (handler (mr_route m)))
          \<longrightarrow> (\<forall>m \<in> set res. \<not> instanceof_Router (handler (mr_route m)))"
    proof
      assume acc: "\<forall>m \<in> set acc. \<not> instanceof_Router (handler (mr_route m))"
      show "\<forall>m \<in> set res. \<not> instanceof_Router (handler (mr_route m))"
      proof (cases rs)
        case Nil
        with body acc show ?thesis by simp
      next
        case (Cons r0 rest)
        show ?thesis
        proof (cases "handler r0")
          case (RouterHandler k0)
          from body have "Option.bind (loop L h request (routes (h k0)) [])
                 (\<lambda>nested. loop L h request rest (acc @ nested)) = Some res"
            by (simp only: Cons RouterHandler list.case RouteHandler.case)
          then obtain nested where
            n: "loop L h request (routes (h k0)) [] = Some nested"
            and r: "loop L h request rest (acc @ nested) = Some res"
            by (cases "loop L h request (routes (h k0)) []") simp_all
          from IH [OF n] have "\<forall>m \<in> set nested. \<not> instanceof_Router (handler (mr_route m))"
            by simp
          with acc have "\<forall>m \<in> set (acc @ nested). \<not> instanceof_Router (handler (mr_route m))"
            by auto
          with IH [OF r] show ?thesis by blast
        next
          case (FunctionHandler f)
          define acc' where "acc' = (if doesMatch (match L r0 request)
                   then acc @ [\<lparr>mr_route = r0, mr_match = pathMatch (match L r0 request)\<rparr>]
                   else acc)"
          from body have r: "loop L h request rest acc' = Some res"
            by (simp only: Cons FunctionHandler list.case RouteHandler.case Let_def acc'_def)
          from acc FunctionHandler have "\<forall>m \<in> set acc'. \<not> instanceof_Router (handler (mr_route m))"
            by (simp add: acc'_def)
          with IH [OF r] show ?thesis by blast
        qed
      qed
    qed
  qed
  with assms(2) show ?thesis by blast
qed

text \<open>Evaluation of the examples.\<close>

lemma example_route_fields:
  "router (example_route k m p hdl mw) = k"
  "method (example_route k m p hdl mw) = m"
  "handler (example_route k m p hdl mw) = hdl"
  "inputPath (path (example_route k m p hdl mw)) = p"
  "formattedPath (path (example_route k m p hdl mw)) = fixPath fresh_router p"
  "pattern (path (example_route k m p hdl mw)) = UrlPattern (fixPath fresh_router p)"
  "isMiddleware (example_route k m p hdl mw) = (if instanceof_Router hdl then False else mw)"
  "isRouterHandler (example_route k m p hdl mw) = instanceof_Router hdl"
  by (simp_all add: example_route_eq)

lemma items_match:
  "match segment_lib (example_route k GET ''/items'' hdl mw) (wrapped_request ''GET'' ''/items/'')
     = \<lparr>pathMatch = Some [], doesMatch = True\<rparr>"
  by (simp add: match_def matchPath_def Let_def example_route_fields wrapped_request_def
      raw_request_def new_RouterRequest_def segment_lib_def string_ops fresh_router_def
      toUpperCase_def upper_char_def)

lemma nested_heap_routes:
  "routes (nested_heap 0) = [route_A, route_B, route_E]"
  "routes (nested_heap (Suc 0)) = [route_C, route_D]"
  by (simp_all add: nested_heap_def)

lemma nested_heap_discovery:
  "findMatchingRoutes segment_lib nested_heap 0 (wrapped_request ''GET'' ''/items/'')
     = Some [\<lparr>mr_route = route_A, mr_match = Some []\<rparr>, \<lparr>mr_route = route_C, mr_match = Some []\<rparr>,
             \<lparr>mr_route = route_D, mr_match = Some []\<rparr>, \<lparr>mr_route = route_E, mr_match = Some []\<rparr>]"
  by (simp add: findMatchingRoutes_def nested_heap_routes route_A_def route_B_def route_C_def
      route_D_def route_E_def loop_Cons_function loop_Cons_router loop_Nil example_route_fields
      items_match found_def)

lemma users_match:
  "match segment_lib (example_route k GET ''/users/:id'' hdl mw) (new_RouterRequest (raw_request ''GET'' ''/users/42/'') ad)
     = \<lparr>pathMatch = Some [(''id'', ''42'')], doesMatch = True\<rparr>"
  by (simp add: match_def matchPath_def Let_def example_route_fields
      raw_request_def new_RouterRequest_def segment_lib_def string_ops fresh_router_def
      toUpperCase_def upper_char_def)

lemma users_heap_discovery:
  "findMatchingRoutes segment_lib users_heap 0 (new_RouterRequest (raw_request ''GET'' ''/users/42/'') ad)
     = Some [\<lparr>mr_route = example_route 0 GET ''/users/:id'' (FunctionHandler 0) False,
              mr_match = Some [(''id'', ''42'')]\<rparr>]"
  by (simp add: findMatchingRoutes_def users_heap_def loop_Cons_function loop_Nil
      example_route_fields users_match found_def)

lemma nests_nested_heap: "nests nested_heap = {(1, 0)}"
  by (auto simp add: nests_def nested_heap_def fresh_router_def fresh_heap_def route_A_def route_B_def route_C_def
      route_D_def route_E_def example_route_fields split: if_splits)

lemma nests_self_heap: "nests self_heap = {(0, 0)}"
  by (auto simp add: nests_def self_heap_def fresh_router_def fresh_heap_def example_route_fields split: if_splits)

lemma rtrancl_single: "(a, b) \<in> {(c, d)}\<^sup>* \<Longrightarrow> a = b \<or> a = c"
  by (induction rule: converse_rtrancl_induct) auto

lemma finite_nested_in_nested_heap: "finite (nested_in nested_heap 0)"
proof -
  have "nested_in nested_heap 0 \<subseteq> {0, 1}"
    unfolding nested_in_def nests_nested_heap by (auto dest: rtrancl_single)
  then show ?thesis by (rule finite_subset) simp
qed

lemma finite_nested_in_self_heap: "finite (nested_in self_heap 0)"
proof -
  have "nested_in self_heap 0 \<subseteq> {0}"
    unfolding nested_in_def nests_self_heap by (auto dest: rtrancl_single)
  then show ?thesis by (rule finite_subset) simp
qed

lemma self_heap_cyclic: "\<not> acyclic_nesting self_heap 0"
  unfolding acyclic_nesting_def nested_in_def nests_self_heap by auto

text \<open>
  C7: discovery keeps the order of registration and splices the matches of a nested
  Router in at the place of the Route that mounts it. For a Router with the routes A, B
  and E, where B mounts a Router with the routes C and D, and a request that A, C, D and
  E match, the result is A, C, D, E. In general the result is the concatenation, in the
  order of the routes, of what each Route contributes, and no entry of it is a Route
  whose handler is a Router.
\<close>

theorem findMatchingRoutes_order:
  "(routes (h this) = [A, B, E] \<and> routes (h k) = [C, D]
      \<and> handler A = FunctionHandler a \<and> handler B = RouterHandler k
      \<and> handler C = FunctionHandler c \<and> handler D = FunctionHandler d
      \<and> handler E = FunctionHandler e
      \<and> doesMatch (match L A request) \<and> doesMatch (match L C request)
      \<and> doesMatch (match L D request) \<and> doesMatch (match L E request)
     \<longrightarrow> findMatchingRoutes L h this request
           = Some [found L request A, found L request C, found L request D, found L request E])
   \<and> (\<forall>res. findMatchingRoutes L h this request = Some res
         \<longrightarrow> res = concat (map (contribution L h request) (routes (h this)))
             \<and> (\<forall>m \<in> set res. \<not> instanceof_Router (handler (mr_route m))))"
proof (intro conjI impI allI)
  assume "routes (h this) = [A, B, E] \<and> routes (h k) = [C, D]
      \<and> handler A = FunctionHandler a \<and> handler B = RouterHandler k
      \<and> handler C = FunctionHandler c \<and> handler D = FunctionHandler d
      \<and> handler E = FunctionHandler e
      \<and> doesMatch (match L A request) \<and> doesMatch (match L C request)
      \<and> doesMatch (match L D request) \<and> doesMatch (match L E request)"
  then show "findMatchingRoutes L h this request
           = Some [found L request A, found L request C, found L request D, found L request E]"
    by (simp add: findMatchingRoutes_def loop_Cons_function loop_Cons_router loop_Nil)
next
  fix res
  assume "findMatchingRoutes L h this request = Some res"
  then show "res = concat (map (contribution L h request) (routes (h this)))"
    using loop_splices [of L h request "routes (h this)" "[]" res]
    by (simp add: findMatchingRoutes_def)
next
  fix res
  assume "findMatchingRoutes L h this request = Some res"
  then show "\<forall>m \<in> set res. \<not> instanceof_Router (handler (mr_route m))"
    using loop_never_router [of L h request "routes (h this)" "[]" res]
    by (simp add: findMatchingRoutes_def)
qed

text \<open>C7 on the example heap, with the request \<^verbatim>\<open>GET /items/\<close>.\<close>

theorem findMatchingRoutes_order_witness:
  "routes (nested_heap 0) = [route_A, route_B, route_E]
   \<and> routes (nested_heap 1) = [route_C, route_D]
   \<and> handler route_B = RouterHandler 1
   \<and> findMatchingRoutes segment_lib nested_heap 0 (wrapped_request ''GET'' ''/items/'')
     = Some [\<lparr>mr_route = route_A, mr_match = Some []\<rparr>, \<lparr>mr_route = route_C, mr_match = Some []\<rparr>,
             \<lparr>mr_route = route_D, mr_match = Some []\<rparr>, \<lparr>mr_route = route_E, mr_match = Some []\<rparr>]"
  using findMatchingRoutes_order [of nested_heap 0 route_A route_B route_E 1 route_C route_D
      2 3 0 4 segment_lib "wrapped_request ''GET'' ''/items/''"]
  by (simp add: nested_heap_routes route_A_def route_B_def route_C_def
      route_D_def route_E_def example_route_fields items_match found_def)

text \<open>
  C10: on a heap where finitely many Routers are nested in the Router \<open>this\<close>,
  \<^verbatim>\<open>findMatchingRoutes\<close> returns exactly when the nesting graph of \<open>this\<close> is acyclic: it
  returns for every acyclic Router, and it does not return when a Router reached from
  \<open>this\<close> reaches itself.
\<close>

theorem findMatchingRoutes_total_iff:
  assumes "finite (nested_in h this)"
  shows "(\<exists>res. findMatchingRoutes L h this request = Some res) \<longleftrightarrow> acyclic_nesting h this"
proof
  assume "\<exists>res. findMatchingRoutes L h this request = Some res"
  then show "acyclic_nesting h this" by (auto dest: returns_imp_acyclic)
next
  assume "acyclic_nesting h this"
  with assms have "this \<in> Wellfounded.acc (nests h)" by (rule acyclic_imp_acc)
  then show "\<exists>res. findMatchingRoutes L h this request = Some res"
    unfolding findMatchingRoutes_def by (rule acc_returns)
qed

text \<open>C10 on the example heap, where discovery returns, and on the Router that mounts
  itself, where it does not.\<close>

theorem findMatchingRoutes_total_iff_witness:
  "finite (nested_in nested_heap 0) \<and> acyclic_nesting nested_heap 0
   \<and> findMatchingRoutes segment_lib nested_heap 0 (wrapped_request ''GET'' ''/items/'')
     = Some [\<lparr>mr_route = route_A, mr_match = Some []\<rparr>, \<lparr>mr_route = route_C, mr_match = Some []\<rparr>,
             \<lparr>mr_route = route_D, mr_match = Some []\<rparr>, \<lparr>mr_route = route_E, mr_match = Some []\<rparr>]
   \<and> finite (nested_in self_heap 0) \<and> \<not> acyclic_nesting self_heap 0
   \<and> findMatchingRoutes segment_lib self_heap 0 (wrapped_request ''GET'' ''/items/'') = None"
  using findMatchingRoutes_total_iff [OF finite_nested_in_nested_heap, of segment_lib "wrapped_request ''GET'' ''/items/''"]
    findMatchingRoutes_total_iff [OF finite_nested_in_self_heap, of segment_lib "wrapped_request ''GET'' ''/items/''"]
    nested_heap_discovery self_heap_cyclic finite_nested_in_nested_heap finite_nested_in_self_heap
  by auto

section \<open>Registration: results\<close>

text \<open>
  C8: registering a Route whose handler is a Router with a method other than \<^verbatim>\<open>ANY\<close> (or
  with no method) fails with the error of an invalid route definition and leaves the
  heap, hence the routes of the Router, as they were; registering it with the method
  \<^verbatim>\<open>ANY\<close> and a path whose pattern compiles appends a Route that is not a middleware,
  whatever \<^verbatim>\<open>isMiddleware\<close> option was given, and whose \<^verbatim>\<open>isRouterHandler\<close> is true.
\<close>

theorem createRoute_nested_router:
  "(m \<noteq> Some ANY \<longrightarrow>
      createRoute L h this \<lparr>o_path = p, o_handler = RouterHandler k, o_method = m, o_isMiddleware = mw\<rparr>
        = (Inl InvalidRouteDefinition, h))
   \<and> (compiles L (fixPath (h this) p) \<longrightarrow>
        (\<exists>rt. createRoute L h this
                \<lparr>o_path = p, o_handler = RouterHandler k, o_method = Some ANY, o_isMiddleware = mw\<rparr>
              = (Inr rt, h(this := (h this)\<lparr>routes := routes (h this) @ [rt]\<rparr>))
            \<and> handler rt = RouterHandler k \<and> method rt = ANY
            \<and> isMiddleware rt = False \<and> isRouterHandler rt = True))"
  by (simp add: createRoute_def new_Route_def createUrlPattern_def Let_def)

text \<open>C8 on the example heap: mounting the Router at 1 under \<^verbatim>\<open>/mounted\<close> with \<^verbatim>\<open>PUT\<close> and
  with \<^verbatim>\<open>ANY\<close>.\<close>

theorem createRoute_nested_router_witness:
  "createRoute segment_lib nested_heap 0
      \<lparr>o_path = ''/mounted'', o_handler = RouterHandler 1, o_method = Some PUT, o_isMiddleware = Some True\<rparr>
     = (Inl InvalidRouteDefinition, nested_heap)
   \<and> compiles segment_lib (fixPath (nested_heap 0) ''/mounted'')
   \<and> (\<exists>rt. createRoute segment_lib nested_heap 0
              \<lparr>o_path = ''/mounted'', o_handler = RouterHandler 1, o_method = Some ANY, o_isMiddleware = Some True\<rparr>
            = (Inr rt, nested_heap(0 := (nested_heap 0)\<lparr>routes := [route_A, route_B, route_E, rt]\<rparr>))
          \<and> isMiddleware rt = False \<and> isRouterHandler rt = True)"
  using createRoute_nested_router [of "Some PUT" segment_lib nested_heap 0 "''/mounted''" 1 "Some True"]
  by (auto simp add: segment_lib_def nested_heap_routes)

section \<open>Dispatch: results\<close>

text \<open>Whenever \<^verbatim>\<open>serve\<close> resolves, it resolves with \<^verbatim>\<open>undefined\<close>.\<close>

lemma serve_resolves_Undefined:
  assumes "serve L F init h this input ad response0 = Some out" and "settled out = Inr v"
  shows "v = Undefined"
  using assms
  by (auto simp add: serve_def Let_def split: option.splits prod.splits if_splits ServeInput.splits)

lemma users_heap_fields:
  "isWaterfall (users_heap 0) = True"
  "customResponseTransformer (users_heap 0) = None"
  by (simp_all add: users_heap_def fresh_router_def)

text \<open>
  C9: given a request that is already an instance of \<^verbatim>\<open>RouterRequest\<close>, \<^verbatim>\<open>serve\<close> resolves
  with no value, logs nothing and leaves the request as it is and the response as it
  was passed (or as a new one), for every pattern library, every table of handlers and
  every heap: no route is matched, no handler runs, no response is built and no error is
  raised, even when no route would match or discovery would not return.
\<close>

theorem serve_wrapped:
  "serve L F init h this (Wrapped rq) ad response0 =
     Some \<lparr>settled = Inr Undefined, console = [],
           final = (rq, case response0 of Some rs \<Rightarrow> rs | None \<Rightarrow> new_RouterResponse init rq)\<rparr>"
  by (simp add: serve_def)

text \<open>
  C3: a successful dispatch of a raw request returns the built response to the caller.
  In the code \<^verbatim>\<open>serve\<close> builds the response and passes it to \<^verbatim>\<open>console.log\<close>, and has no
  \<^verbatim>\<open>return\<close> statement: for the Router with the route \<^verbatim>\<open>GET /users/:id\<close> and the raw request
  \<^verbatim>\<open>GET /users/42/\<close> the promise resolves with \<^verbatim>\<open>undefined\<close>, while the built response, the
  payload with \<^verbatim>\<open>id\<close> bound to \<^verbatim>\<open>42\<close>, is what the console receives.
\<close>

theorem serve_returns_nothing:
  "map_option settled
     (serve segment_lib example_handlers [] users_heap 0 (Raw (raw_request ''GET'' ''/users/42/'')) None None)
     = Some (Inr Undefined)
   \<and> map_option console
     (serve segment_lib example_handlers [] users_heap 0 (Raw (raw_request ''GET'' ''/users/42/'')) None None)
     = Some [Payload [(''id'', ''42'')]]"
  by (simp add: serve_def users_heap_discovery Let_def example_route_fields example_handlers_def
      setParams_def setRoute_def new_RouterResponse_def buildResponse_def users_heap_fields)

end
